theory Spec2Isabelle
  imports Complex_Main "HOL-Library.AList" "HOL-Library.Sublist"
begin

section \<open>Dictionary-based text classifier (streamlit\_app.py)\<close>

text \<open>
  The script keeps one piece of session state, \<^verbatim>\<open>st.session_state["dictionaries"]\<close>,
  a Python dict from category names to sets of keywords. Two handlers touch it:
  the sidebar's \<^emph>\<open>Save Changes\<close> button replaces it by the parsed JSON of the text
  area, and the main panel's \<^emph>\<open>Run Classification\<close> button reads it to annotate an
  uploaded table. Both are embedded below as functions on explicit state, together
  with the helper \<^verbatim>\<open>get_tags\<close>. The widgets around them (the text area and its
  \<^verbatim>\<open>json.dumps\<close> default, the file uploader, the download button) are not part
  of the embedding.

  Strings are HOL strings. \<^verbatim>\<open>str.lower\<close> is modelled on ASCII: the letters
  \<^verbatim>\<open>A\<close> to \<^verbatim>\<open>Z\<close> go to \<^verbatim>\<open>a\<close> to \<^verbatim>\<open>z\<close>, every other character is
  kept. Case mappings of characters outside ASCII are outside this model.
\<close>

subsection \<open>Python strings\<close>

definition lower_char :: "char \<Rightarrow> char" where
  "lower_char c =
     (let n = (of_char c :: nat) in if 65 \<le> n \<and> n \<le> 90 then char_of (n + 32) else c)"

text \<open>\<^verbatim>\<open>s.lower()\<close>\<close>

definition py_lower :: "string \<Rightarrow> string" where
  "py_lower s = map lower_char s"

text \<open>\<^verbatim>\<open>s.startswith(w)\<close>, used to unfold the substring test.\<close>

fun startswith :: "string \<Rightarrow> string \<Rightarrow> bool" where
  "startswith s [] = True"
| "startswith [] (c # w) = False"
| "startswith (d # s) (c # w) = (d = c \<and> startswith s w)"

text \<open>\<^verbatim>\<open>w in s\<close> for two strings: \<open>w\<close> occurs in \<open>s\<close> as a contiguous block.\<close>

fun str_contains :: "string \<Rightarrow> string \<Rightarrow> bool" where
  "str_contains [] w = (w = [])"
| "str_contains (d # s) w = (startswith (d # s) w \<or> str_contains s w)"

text \<open>\<^verbatim>\<open>sep.join(xs)\<close>\<close>

fun join :: "string \<Rightarrow> string list \<Rightarrow> string" where
  "join sep [] = []"
| "join sep [x] = x"
| "join sep (x # y # ys) = x @ sep @ join sep (y # ys)"

subsection \<open>Values\<close>

text \<open>
  What \<^verbatim>\<open>json.loads\<close> returns. A number is kept by its value; the non-standard
  literals \<^verbatim>\<open>NaN\<close> and \<^verbatim>\<open>Infinity\<close> that Python also reads are left out. An
  object is the list of its items in the iteration order of the Python dict.
\<close>

datatype json =
    JNull
  | JBool bool
  | JNum rat
  | JStr string
  | JArr "json list"
  | JObj "(string \<times> json) list"

text \<open>
  A cell of the uploaded table, as \<^verbatim>\<open>Series.apply\<close> hands it to the callback:
  a string, a missing value (pandas reads an empty field as the float \<^verbatim>\<open>nan\<close>),
  \<^verbatim>\<open>None\<close>, a boolean, or any other object, which is represented by the text
  that \<^verbatim>\<open>str\<close> returns for it (numbers fall here).
\<close>

datatype cell = Str string | NaN | PyNone | Bool bool | Other string

text \<open>\<^verbatim>\<open>str(x)\<close>\<close>

fun py_str :: "cell \<Rightarrow> string" where
  "py_str (Str s) = s"
| "py_str NaN = ''nan''"
| "py_str PyNone = ''None''"
| "py_str (Bool b) = (if b then ''True'' else ''False'')"
| "py_str (Other s) = s"

text \<open>Python exceptions that the embedded code can raise.\<close>

datatype exn = JSONDecodeError | AttributeError | TypeError | KeyError

text \<open>
  The session's dictionaries: the items of the Python dict in iteration order, each
  keyword set as the list of its elements in the order the set iterates them.
  Whatever \<^verbatim>\<open>set(v)\<close> accepted is an element, so a keyword is a JSON scalar and
  need not be a string.
\<close>

type_synonym dictionaries = "(string \<times> json list) list"

record session_state =
  dictionaries :: dictionaries
  dict_text :: string

definition DEFAULT_DICTIONARIES :: dictionaries where
  "DEFAULT_DICTIONARIES =
    [(''urgency_marketing'', map JStr
        [''limited'', ''limited time'', ''limited run'', ''limited edition'', ''order now'',
         ''last chance'', ''hurry'', ''while supplies last'', ''before they're gone'',
         ''selling out'', ''selling fast'', ''act now'', ''don't wait'', ''today only'',
         ''expires soon'', ''final hours'', ''almost gone'']),
     (''exclusive_marketing'', map JStr
        [''exclusive'', ''exclusively'', ''exclusive offer'', ''exclusive deal'',
         ''members only'', ''vip'', ''special access'', ''invitation only'',
         ''premium'', ''privileged'', ''limited access'', ''select customers'',
         ''insider'', ''private sale'', ''early access''])]"

subsection \<open>get\_tags\<close>

text \<open>\<^verbatim>\<open>word in lower\<close>: a left operand that is not a string raises TypeError.\<close>

fun word_in :: "json \<Rightarrow> string \<Rightarrow> exn + bool" where
  "word_in (JStr word) lower = Inr (str_contains lower word)"
| "word_in _ lower = Inl TypeError"

text \<open>\<^verbatim>\<open>any(word in lower for word in words)\<close> stops at the first hit.\<close>

fun any_word_in :: "json list \<Rightarrow> string \<Rightarrow> exn + bool" where
  "any_word_in [] lower = Inr False"
| "any_word_in (word # words) lower =
     (case word_in word lower of
        Inl e \<Rightarrow> Inl e
      | Inr hit \<Rightarrow> if hit then Inr True else any_word_in words lower)"

text \<open>The loop over \<^verbatim>\<open>st.session_state["dictionaries"].items()\<close>.\<close>

fun get_tags_loop :: "dictionaries \<Rightarrow> string \<Rightarrow> string list \<Rightarrow> exn + string list" where
  "get_tags_loop [] lower matches = Inr matches"
| "get_tags_loop ((category, words) # rest) lower matches =
     (case any_word_in words lower of
        Inl e \<Rightarrow> Inl e
      | Inr hit \<Rightarrow> get_tags_loop rest lower (if hit then matches @ [category] else matches))"

definition get_tags :: "dictionaries \<Rightarrow> cell \<Rightarrow> exn + string list" where
  "get_tags dicts text = get_tags_loop dicts (py_lower (py_str text)) []"

subsection \<open>The Save Changes handler\<close>

text \<open>\<^verbatim>\<open>parsed_dict.items()\<close>: only a dict has the method.\<close>

fun py_items :: "json \<Rightarrow> exn + (string \<times> json) list" where
  "py_items (JObj kvs) = Inr kvs"
| "py_items _ = Inl AttributeError"

fun hashable :: "json \<Rightarrow> bool" where
  "hashable (JArr _) = False"
| "hashable (JObj _) = False"
| "hashable _ = True"

text \<open>
  Elements of a set are compared with \<^verbatim>\<open>==\<close>, under which \<^verbatim>\<open>True\<close> is the
  number 1 and \<^verbatim>\<open>False\<close> the number 0.
\<close>

fun py_eq_key :: "json \<Rightarrow> json" where
  "py_eq_key (JBool b) = JNum (if b then 1 else 0)"
| "py_eq_key v = v"

definition set_add :: "json list \<Rightarrow> json \<Rightarrow> json list" where
  "set_add s x = (if py_eq_key x \<in> set (map py_eq_key s) then s else s @ [x])"

text \<open>
  \<^verbatim>\<open>set(v)\<close>. It iterates a list by its elements, a string by its characters and a
  dict by its keys; anything else is not iterable, and an element that is a list or
  a dict is not hashable. The order in which a Python set iterates is fixed by the
  hashes; the model lists the elements in the order of their first insertion.
\<close>

fun py_set :: "json \<Rightarrow> exn + json list" where
  "py_set (JArr xs) = (if list_all hashable xs then Inr (foldl set_add [] xs) else Inl TypeError)"
| "py_set (JStr s) = Inr (foldl set_add [] (map (\<lambda>c. JStr [c]) s))"
| "py_set (JObj kvs) = Inr (foldl set_add [] (map (\<lambda>kv. JStr (fst kv)) kvs))"
| "py_set _ = Inl TypeError"

text \<open>\<^verbatim>\<open>{k: set(v) for k, v in parsed_dict.items()}\<close>, item by item.\<close>

fun cleaned_from :: "(string \<times> json) list \<Rightarrow> dictionaries \<Rightarrow> exn + dictionaries" where
  "cleaned_from [] acc = Inr acc"
| "cleaned_from ((k, v) # rest) acc =
     (case py_set v of
        Inl e \<Rightarrow> Inl e
      | Inr s \<Rightarrow> cleaned_from rest (AList.update k s acc))"

text \<open>
  The body of the \<^verbatim>\<open>try\<close>, up to the assignment. \<^verbatim>\<open>json.loads\<close> is a
  parameter: it returns the parsed value or raises.
\<close>

definition parse_and_clean :: "(string \<Rightarrow> exn + json) \<Rightarrow> string \<Rightarrow> exn + dictionaries" where
  "parse_and_clean loads text =
     (case loads text of
        Inl e \<Rightarrow> Inl e
      | Inr parsed_dict \<Rightarrow>
          (case py_items parsed_dict of
             Inl e \<Rightarrow> Inl e
           | Inr kvs \<Rightarrow> cleaned_from kvs []))"

datatype message =
    DictionariesUpdated       \<comment> \<open>\<^verbatim>\<open>st.success("Dictionaries updated!")\<close>\<close>
  | FailedToParseJSON exn     \<comment> \<open>\<^verbatim>\<open>st.error(f"Failed to parse JSON: {e}")\<close>\<close>

definition save_changes ::
  "(string \<Rightarrow> exn + json) \<Rightarrow> session_state \<Rightarrow> session_state \<times> message" where
  "save_changes loads st =
     (case parse_and_clean loads (dict_text st) of
        Inr cleaned \<Rightarrow> (st\<lparr>dictionaries := cleaned\<rparr>, DictionariesUpdated)
      | Inl e \<Rightarrow> (st, FailedToParseJSON e))"

subsection \<open>The Run Classification handler\<close>

text \<open>
  A DataFrame: its columns in order, each with its name and its cells.
  \<^verbatim>\<open>df[name] = values\<close> overwrites the column of that name where it stands, and
  appends a new column when there is none: \<^const>\<open>AList.update\<close>.
\<close>

type_synonym dataframe = "(string \<times> cell list) list"

text \<open>\<^verbatim>\<open>series.apply(f)\<close>\<close>

fun apply_series :: "(cell \<Rightarrow> exn + cell) \<Rightarrow> cell list \<Rightarrow> exn + cell list" where
  "apply_series f [] = Inr []"
| "apply_series f (x # xs) =
     (case f x of
        Inl e \<Rightarrow> Inl e
      | Inr y \<Rightarrow> (case apply_series f xs of Inl e \<Rightarrow> Inl e | Inr ys \<Rightarrow> Inr (y # ys)))"

text \<open>\<^verbatim>\<open>lambda x: ", ".join(get_tags(x))\<close>\<close>

definition tags_of :: "dictionaries \<Rightarrow> cell \<Rightarrow> exn + cell" where
  "tags_of dicts x =
     (case get_tags dicts x of Inl e \<Rightarrow> Inl e | Inr ms \<Rightarrow> Inr (Str (join '', '' ms)))"

text \<open>\<^verbatim>\<open>lambda x: category in get_tags(x)\<close>\<close>

definition flag_of :: "dictionaries \<Rightarrow> string \<Rightarrow> cell \<Rightarrow> exn + cell" where
  "flag_of dicts category x =
     (case get_tags dicts x of Inl e \<Rightarrow> Inl e | Inr ms \<Rightarrow> Inr (Bool (category \<in> set ms)))"

text \<open>
  The loop \<^verbatim>\<open>for category in st.session_state["dictionaries"]\<close>. Each round
  reads \<^verbatim>\<open>df["Statement"]\<close> anew.
\<close>

fun category_columns :: "dictionaries \<Rightarrow> string list \<Rightarrow> dataframe \<Rightarrow> exn + dataframe" where
  "category_columns dicts [] df = Inr df"
| "category_columns dicts (category # rest) df =
     (case map_of df ''Statement'' of
        None \<Rightarrow> Inl KeyError
      | Some col \<Rightarrow>
          (case apply_series (flag_of dicts category) col of
             Inl e \<Rightarrow> Inl e
           | Inr flags \<Rightarrow> category_columns dicts rest (AList.update category flags df)))"

text \<open>Lines 110 to 112: the Tags column, then one column per category.\<close>

definition classify :: "dictionaries \<Rightarrow> dataframe \<Rightarrow> exn + dataframe" where
  "classify dicts df =
     (case map_of df ''Statement'' of
        None \<Rightarrow> Inl KeyError
      | Some col \<Rightarrow>
          (case apply_series (tags_of dicts) col of
             Inl e \<Rightarrow> Inl e
           | Inr tags \<Rightarrow> category_columns dicts (map fst dicts) (AList.update ''Tags'' tags df)))"

text \<open>
  The handler after a successful \<^verbatim>\<open>pd.read_csv\<close>. Without a \<^verbatim>\<open>Statement\<close>
  column it reports and stops; an exception raised further down is not caught and
  ends the run.
\<close>

datatype halt =
    MissingStatementColumn    \<comment> \<open>\<^verbatim>\<open>st.error("The uploaded file must contain ...")\<close>, \<^verbatim>\<open>st.stop()\<close>\<close>
  | Uncaught exn

definition run_classification :: "dictionaries \<Rightarrow> dataframe \<Rightarrow> halt + dataframe" where
  "run_classification dicts df =
     (if ''Statement'' \<notin> set (map fst df) then Inl MissingStatementColumn
      else (case classify dicts df of Inl e \<Rightarrow> Inl (Uncaught e) | Inr out \<Rightarrow> Inr out))"

subsection \<open>Notions used in the statements\<close>

text \<open>The keyword is a string.\<close>

fun is_str :: "json \<Rightarrow> bool" where
  "is_str (JStr _) = True"
| "is_str _ = False"

text \<open>Every keyword of every category is a string, as in the built-in dictionaries.\<close>

definition str_keywords :: "dictionaries \<Rightarrow> bool" where
  "str_keywords dicts = list_all (\<lambda>entry. list_all is_str (snd entry)) dicts"

text \<open>Some keyword of the set is a string that occurs in the lowercased text.\<close>

definition hits :: "json list \<Rightarrow> string \<Rightarrow> bool" where
  "hits words lower = list_ex (\<lambda>word. case word of JStr w \<Rightarrow> str_contains lower w | _ \<Rightarrow> False) words"

text \<open>The categories with a hit, in the order of the dictionaries.\<close>

definition matched :: "dictionaries \<Rightarrow> cell \<Rightarrow> string list" where
  "matched dicts text = map fst (filter (\<lambda>entry. hits (snd entry) (py_lower (py_str text))) dicts)"

text \<open>What \<^verbatim>\<open>set(v)\<close> can iterate: a list, a string or a dict.\<close>

fun iterable :: "json \<Rightarrow> bool" where
  "iterable (JArr _) = True"
| "iterable (JStr _) = True"
| "iterable (JObj _) = True"
| "iterable _ = False"

text \<open>The value is a list of strings, the shape the editor shows for a category.\<close>

fun is_str_list :: "json \<Rightarrow> bool" where
  "is_str_list (JArr xs) = list_all is_str xs"
| "is_str_list _ = False"

text \<open>The Tags column and the column of one category, for a column of texts.\<close>

definition tag_column :: "dictionaries \<Rightarrow> cell list \<Rightarrow> cell list" where
  "tag_column dicts col = map (\<lambda>x. Str (join '', '' (matched dicts x))) col"

definition flag_column :: "dictionaries \<Rightarrow> cell list \<Rightarrow> string \<Rightarrow> cell list" where
  "flag_column dicts col category = map (\<lambda>x. Bool (category \<in> set (matched dicts x))) col"

section \<open>Facts about the embedding\<close>

subsection \<open>Strings\<close>

lemma startswith_prefix: "startswith s w \<longleftrightarrow> prefix w s"
  by (induction s w rule: startswith.induct) auto

lemma str_contains_sublist: "str_contains s w \<longleftrightarrow> sublist w s"
  by (induction s) (auto simp: startswith_prefix sublist_Cons_right)

lemma str_contains_iff: "str_contains s w \<longleftrightarrow> (\<exists>p q. s = p @ w @ q)"
  by (simp add: str_contains_sublist sublist_def)

lemma str_contains_empty: "str_contains s []"
  by (simp add: str_contains_sublist)

lemma lower_char_idem: "lower_char (lower_char c) = lower_char c"
  by (auto simp: lower_char_def Let_def)

lemma py_lower_idem: "py_lower (py_lower s) = py_lower s"
  by (simp add: py_lower_def lower_char_idem)

lemma py_lower_append: "py_lower (a @ b) = py_lower a @ py_lower b"
  by (simp add: py_lower_def)

lemma contains_lower_fixed:
  assumes "str_contains (py_lower s) w" shows "py_lower w = w"
proof -
  from assms obtain p q where "py_lower s = p @ w @ q" by (auto simp: str_contains_iff)
  then have "py_lower (p @ w @ q) = p @ w @ q" by (metis py_lower_idem)
  then have "py_lower p @ py_lower w @ py_lower q = p @ w @ q" by (simp add: py_lower_append)
  moreover have "length (py_lower p) = length p" "length (py_lower w) = length w" by (simp_all add: py_lower_def)
  ultimately show ?thesis by simp
qed

lemma contains_lower_iff:
  "str_contains (py_lower s) w \<longleftrightarrow> (\<exists>u. py_lower u = w \<and> str_contains s u)"
proof
  assume "str_contains (py_lower s) w"
  then obtain p q where "map lower_char s = p @ w @ q" by (auto simp: str_contains_iff py_lower_def)
  then obtain p' r where "s = p' @ r" "map lower_char r = w @ q"
    by (metis map_eq_append_conv)
  then obtain u q' where "r = u @ q'" "map lower_char u = w"
    by (metis map_eq_append_conv)
  with \<open>s = p' @ r\<close> show "\<exists>u. py_lower u = w \<and> str_contains s u"
    by (auto simp: str_contains_iff py_lower_def)
next
  assume "\<exists>u. py_lower u = w \<and> str_contains s u"
  then obtain u p q where "py_lower u = w" "s = p @ u @ q"
    by (auto simp: str_contains_iff)
  then have "py_lower s = py_lower p @ w @ py_lower q"
    by (simp add: py_lower_append)
  then show "str_contains (py_lower s) w"
    unfolding str_contains_iff by blast
qed

subsection \<open>get\_tags\<close>

lemma hits_iff: "hits words lower \<longleftrightarrow> (\<exists>w. JStr w \<in> set words \<and> str_contains lower w)"
proof (induction words)
  case Nil
  then show ?case by (simp add: hits_def)
next
  case (Cons word words)
  then show ?case by (cases word) (auto simp: hits_def)
qed

lemma any_word_in_Inr: "any_word_in words lower = Inr hit \<Longrightarrow> hit = hits words lower"
proof (induction words)
  case Nil
  then show ?case by (simp add: hits_def)
next
  case (Cons word words)
  then show ?case
    by (cases word) (auto simp: hits_def split: if_splits)
qed

lemma any_word_in_str: "list_all is_str words \<Longrightarrow> any_word_in words lower = Inr (hits words lower)"
proof (induction words)
  case Nil
  then show ?case by (simp add: hits_def)
next
  case (Cons word words)
  then show ?case
    by (cases word) (auto simp: hits_def)
qed

lemma get_tags_loop_Inr:
  "get_tags_loop dicts lower acc = Inr ms \<Longrightarrow>
   ms = acc @ map fst (filter (\<lambda>entry. hits (snd entry) lower) dicts)"
proof (induction dicts lower acc rule: get_tags_loop.induct)
  case (1 lower matches)
  then show ?case by simp
next
  case (2 category words rest lower matches)
  then show ?case
    by (auto split: sum.splits dest: any_word_in_Inr)
qed

lemma get_tags_loop_str:
  "str_keywords dicts \<Longrightarrow>
   get_tags_loop dicts lower acc = Inr (acc @ map fst (filter (\<lambda>entry. hits (snd entry) lower) dicts))"
proof (induction dicts lower acc rule: get_tags_loop.induct)
  case (1 lower matches)
  then show ?case by simp
next
  case (2 category words rest lower matches)
  then show ?case
    by (simp add: str_keywords_def any_word_in_str)
qed

lemma get_tags_Inr: "get_tags dicts x = Inr ms \<Longrightarrow> ms = matched dicts x"
  by (auto simp: get_tags_def matched_def dest: get_tags_loop_Inr)

lemma get_tags_str: "str_keywords dicts \<Longrightarrow> get_tags dicts x = Inr (matched dicts x)"
  by (simp add: get_tags_def matched_def get_tags_loop_str)

lemma set_matched:
  "c \<in> set (matched dicts x) \<longleftrightarrow>
   (\<exists>words w. (c, words) \<in> set dicts \<and> JStr w \<in> set words \<and> str_contains (py_lower (py_str x)) w)"
  by (force simp: matched_def hits_iff)

lemma matched_missing:
  "matched dicts NaN = map fst (filter (\<lambda>entry. hits (snd entry) ''nan'') dicts)"
  "matched dicts PyNone = map fst (filter (\<lambda>entry. hits (snd entry) ''none'') dicts)"
proof -
  have "py_lower ''nan'' = ''nan''" "py_lower ''None'' = ''none''" by code_simp+
  then show "matched dicts NaN = map fst (filter (\<lambda>entry. hits (snd entry) ''nan'') dicts)"
    "matched dicts PyNone = map fst (filter (\<lambda>entry. hits (snd entry) ''none'') dicts)"
    by (simp_all add: matched_def)
qed

lemma str_keywords_DEFAULT: "str_keywords DEFAULT_DICTIONARIES"
  by code_simp

lemma hitsI: "JStr w \<in> set words \<Longrightarrow> str_contains lower w \<Longrightarrow> hits words lower"
  by (auto simp: hits_iff)

subsection \<open>The Save Changes handler\<close>

lemma py_set_not_iterable: "\<not> iterable v \<Longrightarrow> py_set v = Inl TypeError"
  by (cases v) simp_all

lemma cleaned_from_fails:
  "(k, v) \<in> set kvs \<Longrightarrow> py_set v = Inl e \<Longrightarrow> \<exists>e'. cleaned_from kvs acc = Inl e'"
proof (induction kvs arbitrary: acc)
  case Nil
  then show ?case by simp
next
  case (Cons kv kvs)
  obtain k' v' where kv: "kv = (k', v')" by (cases kv)
  show ?case
  proof (cases "py_set v'")
    case (Inl e0)
    then show ?thesis by (simp add: kv)
  next
    case (Inr s)
    with Cons.prems kv have "(k, v) \<in> set kvs" by auto
    from Cons.IH [OF this Cons.prems(2)] Inr show ?thesis by (simp add: kv)
  qed
qed

lemma py_eq_key_str: "py_eq_key y = JStr w \<longleftrightarrow> y = JStr w"
  by (cases y) auto

lemma py_eq_key_str': "JStr w = py_eq_key y \<longleftrightarrow> y = JStr w"
  by (cases y) auto

lemma set_add_str: "JStr w \<in> set (set_add s x) \<longleftrightarrow> JStr w \<in> set s \<or> x = JStr w"
  by (auto simp: set_add_def py_eq_key_str py_eq_key_str')

lemma foldl_set_add_str:
  "JStr w \<in> set (foldl set_add acc xs) \<longleftrightarrow> JStr w \<in> set acc \<or> JStr w \<in> set xs"
  by (induction xs arbitrary: acc) (auto simp: set_add_str)

lemma foldl_set_add_subset: "set (foldl set_add acc xs) \<subseteq> set acc \<union> set xs"
proof (induction xs arbitrary: acc)
  case Nil
  then show ?case by simp
next
  case (Cons x xs)
  have "set (set_add acc x) \<subseteq> insert x (set acc)" by (auto simp: set_add_def)
  with Cons.IH [of "set_add acc x"] show ?case by auto
qed

lemma py_set_str_list:
  assumes "is_str_list v"
  shows "\<exists>ws. v = JArr ws \<and> py_set v = Inr (foldl set_add [] ws) \<and> list_all is_str (foldl set_add [] ws)"
proof -
  from assms obtain ws where v: "v = JArr ws" and s: "list_all is_str ws"
    by (cases v) auto
  have h: "list_all hashable ws"
    unfolding list_all_iff
  proof
    fix x assume "x \<in> set ws"
    with s have "is_str x" by (simp add: list_all_iff)
    then show "hashable x" by (cases x) simp_all
  qed
  from s foldl_set_add_subset [of "[]" ws] have "list_all is_str (foldl set_add [] ws)"
    by (auto simp: list_all_iff)
  with v h show ?thesis by simp
qed

lemma set_update_cases:
  "kv \<in> set (AList.update k v al) \<Longrightarrow> kv = (k, v) \<or> kv \<in> set al"
  by (induction al) (auto split: if_splits)

lemma str_keywords_update:
  "str_keywords acc \<Longrightarrow> list_all is_str s \<Longrightarrow> str_keywords (AList.update k s acc)"
  unfolding str_keywords_def list_all_iff
  by (auto dest!: set_update_cases)

lemma cleaned_from_str_lists:
  assumes "list_all (\<lambda>kv. is_str_list (snd kv)) kvs" and "distinct (map fst kvs)"
    and "str_keywords acc"
  shows "\<exists>d. cleaned_from kvs acc = Inr d \<and> str_keywords d \<and>
           (\<forall>k ws. (k, JArr ws) \<in> set kvs \<longrightarrow> map_of d k = Some (foldl set_add [] ws)) \<and>
           (\<forall>k. k \<notin> fst ` set kvs \<longrightarrow> map_of d k = map_of acc k)"
  using assms
proof (induction kvs arbitrary: acc)
  case Nil
  then show ?case by simp
next
  case (Cons kv kvs)
  obtain k v where kv: "kv = (k, v)" by (cases kv)
  from Cons.prems kv have "is_str_list v" by simp
  from py_set_str_list [OF this] obtain ws where
    v: "v = JArr ws" and p: "py_set v = Inr (foldl set_add [] ws)"
    and l: "list_all is_str (foldl set_add [] ws)" by blast
  let ?acc = "AList.update k (foldl set_add [] ws) acc"
  have "str_keywords ?acc" using Cons.prems(3) l by (rule str_keywords_update)
  moreover from Cons.prems have "list_all (\<lambda>kv. is_str_list (snd kv)) kvs" "distinct (map fst kvs)"
    by simp_all
  ultimately obtain d where d: "cleaned_from kvs ?acc = Inr d" "str_keywords d"
      "\<forall>k ws. (k, JArr ws) \<in> set kvs \<longrightarrow> map_of d k = Some (foldl set_add [] ws)"
      "\<forall>k. k \<notin> fst ` set kvs \<longrightarrow> map_of d k = map_of ?acc k"
    using Cons.IH [of ?acc] by blast
  from Cons.prems(2) kv have fresh: "k \<notin> fst ` set kvs" by simp
  have "cleaned_from (kv # kvs) acc = Inr d" using d(1) p by (simp add: kv)
  moreover have "\<forall>k' ws'. (k', JArr ws') \<in> set (kv # kvs) \<longrightarrow> map_of d k' = Some (foldl set_add [] ws')"
  proof (intro allI impI)
    fix k' ws' assume "(k', JArr ws') \<in> set (kv # kvs)"
    then consider "k' = k" "ws' = ws" | "(k', JArr ws') \<in> set kvs" using kv v by auto
    then show "map_of d k' = Some (foldl set_add [] ws')"
    proof cases
      case 1
      with d(4) fresh show ?thesis by (simp add: update_conv')
    next
      case 2
      with d(3) show ?thesis by blast
    qed
  qed
  moreover have "\<forall>k'. k' \<notin> fst ` set (kv # kvs) \<longrightarrow> map_of d k' = map_of acc k'"
    using d(4) kv by (auto simp: update_conv')
  ultimately show ?case using d(2) by blast
qed

lemma empty_keyword_matched:
  assumes "(c, words) \<in> set dicts" and "JStr '''' \<in> set words"
  shows "c \<in> set (matched dicts x)"
  unfolding set_matched using assms str_contains_empty by blast

subsection \<open>The Run Classification handler\<close>

text \<open>
  With string keywords no callback raises, and when no category is named
  \<^verbatim>\<open>Statement\<close> every round of the loop reads the column of texts of the input.
  The run is then a sequence of column assignments with known values.
\<close>

lemma apply_series_total: "(\<And>x. f x = Inr (g x)) \<Longrightarrow> apply_series f xs = Inr (map g xs)"
  by (induction xs) simp_all

lemma tags_of_str:
  "str_keywords dicts \<Longrightarrow> apply_series (tags_of dicts) col = Inr (tag_column dicts col)"
  unfolding tag_column_def
  by (rule apply_series_total) (simp add: tags_of_def get_tags_str)

lemma flag_of_str:
  "str_keywords dicts \<Longrightarrow> apply_series (flag_of dicts c) col = Inr (flag_column dicts col c)"
  unfolding flag_column_def
  by (rule apply_series_total) (simp add: flag_of_def get_tags_str)

lemma category_columns_eq:
  assumes "str_keywords dicts"
  shows "map_of df ''Statement'' = Some col \<Longrightarrow> ''Statement'' \<notin> set cs \<Longrightarrow>
         category_columns dicts cs df = Inr (AList.updates cs (map (flag_column dicts col) cs) df)"
proof (induction cs arbitrary: df)
  case Nil
  then show ?case by simp
next
  case (Cons c cs)
  from Cons.prems have "map_of (AList.update c (flag_column dicts col c) df) ''Statement'' = Some col"
    by (simp add: update_conv')
  with Cons show ?case by (simp add: flag_of_str [OF assms])
qed

lemma classify_eq:
  assumes "str_keywords dicts" and "map_of df ''Statement'' = Some col"
    and "''Statement'' \<notin> set (map fst dicts)"
  shows "classify dicts df =
           Inr (AList.updates (''Tags'' # map fst dicts)
                  (tag_column dicts col # map (flag_column dicts col) (map fst dicts)) df)"
proof -
  have "map_of (AList.update ''Tags'' (tag_column dicts col) df) ''Statement'' = Some col"
    using assms(2) by (simp add: update_conv')
  from category_columns_eq [OF assms(1) this assms(3)] assms(1,2)
  show ?thesis by (simp add: classify_def tags_of_str)
qed

lemma has_statement: "''Statement'' \<in> set (map fst df) \<longleftrightarrow> (\<exists>col. map_of df ''Statement'' = Some col)"
  by (metis domIff dom_map_of_conv_image_fst not_None_eq set_map)

lemma run_classification_eq:
  assumes "str_keywords dicts" and "map_of df ''Statement'' = Some col"
    and "''Statement'' \<notin> set (map fst dicts)"
  shows "run_classification dicts df =
           Inr (AList.updates (''Tags'' # map fst dicts)
                  (tag_column dicts col # map (flag_column dicts col) (map fst dicts)) df)"
proof -
  from assms(2) have "''Statement'' \<in> set (map fst df)" using has_statement by blast
  then show ?thesis by (simp add: run_classification_def classify_eq [OF assms])
qed

text \<open>Assigning columns: what is read back, where new columns go, and assigning twice.\<close>

lemma upds_in: "c \<in> set cs \<Longrightarrow> (m(cs [\<mapsto>] map f cs)) c = Some (f c)"
proof (induction cs arbitrary: m)
  case Nil
  then show ?case by simp
next
  case (Cons a cs)
  show ?case
  proof (cases "c \<in> set cs")
    case True
    then show ?thesis by (simp add: Cons.IH)
  next
    case False
    with Cons.prems have "c = a" by simp
    with False show ?thesis by simp
  qed
qed

lemma update_fresh: "k \<notin> fst ` set al \<Longrightarrow> AList.update k v al = al @ [(k, v)]"
  by (induction al) auto

lemma updates_fresh:
  "distinct ks \<Longrightarrow> set ks \<inter> fst ` set al = {} \<Longrightarrow> length vs = length ks \<Longrightarrow>
   AList.updates ks vs al = al @ zip ks vs"
proof (induction ks arbitrary: vs al)
  case Nil
  then show ?case by simp
next
  case (Cons k ks)
  then obtain v vs' where vs: "vs = v # vs'" by (cases vs) auto
  from Cons.prems have k: "k \<notin> fst ` set al" by auto
  have "set ks \<inter> fst ` set (al @ [(k, v)]) = {}" using Cons.prems by auto
  with Cons.IH [of "al @ [(k, v)]" vs'] Cons.prems vs
  have "AList.updates ks vs' (al @ [(k, v)]) = (al @ [(k, v)]) @ zip ks vs'" by simp
  then show ?case by (simp add: vs update_fresh [OF k])
qed

lemma updates_keys_present:
  "set ks \<subseteq> fst ` set al \<Longrightarrow> map fst (AList.updates ks vs al) = map fst al"
proof (induction ks arbitrary: vs al)
  case Nil
  then show ?case by simp
next
  case (Cons k ks)
  show ?case
  proof (cases vs)
    case Nil
    then show ?thesis by simp
  next
    case (Cons v vs')
    from Cons.prems have a: "map fst (AList.update k v al) = map fst al" by (simp add: update_keys)
    then have "set ks \<subseteq> fst ` set (AList.update k v al)" using Cons.prems
      by (metis (no_types, lifting) list.set_map set_subset_Cons subset_trans)
    from Cons.IH [OF this] a show ?thesis by (simp add: Cons)
  qed
qed

lemma updates_has_keys:
  "length vs = length ks \<Longrightarrow> set ks \<subseteq> fst ` set (AList.updates ks vs al)"
proof -
  assume "length vs = length ks"
  then have "dom ((map_of al)(ks [\<mapsto>] vs)) = set ks \<union> dom (map_of al)" by (simp add: dom_map_upds)
  then have "set ks \<subseteq> dom (map_of (AList.updates ks vs al))" by (simp add: updates_conv')
  then show ?thesis by (simp add: dom_map_of_conv_image_fst)
qed

lemma map_add_self: "n ++ n = n"
  by (rule ext) (simp add: map_add_def split: option.split)

lemma map_upds_twice: "(m(ks [\<mapsto>] vs))(ks [\<mapsto>] vs) = m(ks [\<mapsto>] vs)"
  unfolding map_upds_def map_add_assoc [symmetric] map_add_self ..

lemma alist_eqI:
  "distinct (map fst xs) \<Longrightarrow> map fst xs = map fst ys \<Longrightarrow> map_of xs = map_of ys \<Longrightarrow> xs = ys"
proof (induction xs arbitrary: ys)
  case Nil
  then show ?case by simp
next
  case (Cons x xs)
  then obtain y ys' where ys: "ys = y # ys'" by (cases ys) auto
  from Cons.prems ys have k: "fst x = fst y" and ks: "map fst xs = map fst ys'" by simp_all
  from Cons.prems(3) have "map_of (x # xs) (fst x) = map_of ys (fst x)" by (rule fun_cong)
  with k ys have v: "snd x = snd y" by (cases x; cases y) simp
  with k have xy: "x = y" by (simp add: prod_eq_iff)
  have "map_of xs = map_of ys'"
  proof
    fix a
    show "map_of xs a = map_of ys' a"
    proof (cases "a = fst x")
      case True
      with Cons.prems(1) have "a \<notin> fst ` set xs" by simp
      moreover from this ks have "a \<notin> fst ` set ys'" by (metis list.set_map)
      ultimately have "map_of xs a = None" and "map_of ys' a = None"
        by (simp_all add: map_of_eq_None_iff)
      then show ?thesis by simp
    next
      case False
      from Cons.prems(3) have "map_of (x # xs) a = map_of ys a" by (rule fun_cong)
      with False xy ys show ?thesis by (cases y) (auto split: if_splits)
    qed
  qed
  with Cons.IH [of ys'] Cons.prems(1) ks xy ys show ?case by simp
qed

lemma updates_twice:
  assumes "distinct (map fst al)" and "length vs = length ks"
  shows "AList.updates ks vs (AList.updates ks vs al) = AList.updates ks vs al"
proof (rule alist_eqI)
  show "distinct (map fst (AList.updates ks vs (AList.updates ks vs al)))"
    by (intro distinct_updates assms)
  show "map fst (AList.updates ks vs (AList.updates ks vs al)) = map fst (AList.updates ks vs al)"
    by (rule updates_keys_present) (rule updates_has_keys [OF assms(2)])
  show "map_of (AList.updates ks vs (AList.updates ks vs al)) = map_of (AList.updates ks vs al)"
    by (simp add: updates_conv' map_upds_twice)
qed

text \<open>Whatever the keywords are, a table that the run returns is the input with columns assigned.\<close>

lemma category_columns_updates:
  "category_columns dicts cs df = Inr out \<Longrightarrow>
   \<exists>vs. length vs = length cs \<and> out = AList.updates cs vs df"
proof (induction cs arbitrary: df)
  case Nil
  then show ?case by simp
next
  case (Cons c cs)
  from Cons.prems obtain col flags where
      r: "category_columns dicts cs (AList.update c flags df) = Inr out"
    by (auto split: option.splits sum.splits)
  from Cons.IH [OF r] obtain vs where
      "length vs = length cs" "out = AList.updates cs vs (AList.update c flags df)"
    by blast
  then have "length (flags # vs) = length (c # cs) \<and> out = AList.updates (c # cs) (flags # vs) df"
    by simp
  then show ?case by blast
qed

lemma classify_updates:
  assumes "classify dicts df = Inr out"
  shows "\<exists>vs. length vs = Suc (length dicts) \<and> out = AList.updates (''Tags'' # map fst dicts) vs df"
proof -
  from assms obtain tags where
      r: "category_columns dicts (map fst dicts) (AList.update ''Tags'' tags df) = Inr out"
    by (auto simp: classify_def split: option.splits sum.splits)
  from category_columns_updates [OF r] obtain vs where
      "length vs = length dicts" "out = AList.updates (map fst dicts) vs (AList.update ''Tags'' tags df)"
    by auto
  then have "length (tags # vs) = Suc (length dicts) \<and>
      out = AList.updates (''Tags'' # map fst dicts) (tags # vs) df"
    by simp
  then show ?thesis by blast
qed

lemma run_classification_Inr:
  "run_classification dicts df = Inr out \<longleftrightarrow>
   ''Statement'' \<in> set (map fst df) \<and> classify dicts df = Inr out"
  by (simp add: run_classification_def split: sum.splits)

text \<open>
  Two tables that agree on \<^verbatim>\<open>Statement\<close> and on the columns written so far go
  through the loop in step: the same exception, or tables that agree on these
  columns and on the columns of the categories.
\<close>

lemma category_columns_agree:
  assumes "\<forall>c \<in> insert ''Statement'' K. map_of df' c = map_of df c"
  shows "case category_columns dicts cs df of
           Inl e \<Rightarrow> category_columns dicts cs df' = Inl e
         | Inr out \<Rightarrow> \<exists>out'. category_columns dicts cs df' = Inr out' \<and>
             (\<forall>c \<in> insert ''Statement'' (K \<union> set cs). map_of out' c = map_of out c)"
  using assms
proof (induction cs arbitrary: df df' K)
  case Nil
  then show ?case by simp
next
  case (Cons category rest)
  from Cons.prems have s: "map_of df' ''Statement'' = map_of df ''Statement''" by simp
  show ?case
  proof (cases "map_of df ''Statement''")
    case None
    with s show ?thesis by simp
  next
    case (Some col)
    show ?thesis
    proof (cases "apply_series (flag_of dicts category) col")
      case (Inl e)
      with s Some show ?thesis by simp
    next
      case (Inr flags)
      have "\<forall>c \<in> insert ''Statement'' (insert category K).
              map_of (AList.update category flags df') c = map_of (AList.update category flags df) c"
        using Cons.prems by (simp add: update_conv')
      from Cons.IH [OF this]
      have "case category_columns dicts rest (AList.update category flags df) of
              Inl e \<Rightarrow> category_columns dicts rest (AList.update category flags df') = Inl e
            | Inr out \<Rightarrow> \<exists>out'. category_columns dicts rest (AList.update category flags df') = Inr out' \<and>
                (\<forall>c \<in> insert ''Statement'' (insert category K \<union> set rest). map_of out' c = map_of out c)" .
      with s Some Inr show ?thesis by (auto split: sum.splits)
    qed
  qed
qed

lemma classify_agree:
  assumes "map_of df' ''Statement'' = map_of df ''Statement''"
  shows "case classify dicts df of
           Inl e \<Rightarrow> classify dicts df' = Inl e
         | Inr out \<Rightarrow> \<exists>out'. classify dicts df' = Inr out' \<and>
             (\<forall>c \<in> set (''Tags'' # map fst dicts). map_of out' c = map_of out c)"
proof (cases "map_of df ''Statement''")
  case None
  with assms show ?thesis by (simp add: classify_def)
next
  case (Some col)
  show ?thesis
  proof (cases "apply_series (tags_of dicts) col")
    case (Inl e)
    with assms Some show ?thesis by (simp add: classify_def)
  next
    case (Inr tags)
    have "\<forall>c \<in> insert ''Statement'' {''Tags''}.
            map_of (AList.update ''Tags'' tags df') c = map_of (AList.update ''Tags'' tags df) c"
      using assms by (simp add: update_conv')
    from category_columns_agree [OF this, of dicts "map fst dicts"]
    have "case category_columns dicts (map fst dicts) (AList.update ''Tags'' tags df) of
            Inl e \<Rightarrow> category_columns dicts (map fst dicts) (AList.update ''Tags'' tags df') = Inl e
          | Inr out \<Rightarrow> \<exists>out'. category_columns dicts (map fst dicts) (AList.update ''Tags'' tags df') = Inr out' \<and>
              (\<forall>c \<in> set (''Tags'' # map fst dicts). map_of out' c = map_of out c)"
      by (auto split: sum.splits)
    with assms Some Inr show ?thesis by (auto simp: classify_def split: sum.splits)
  qed
qed

lemma updates_statement:
  "''Statement'' \<notin> set ks \<Longrightarrow> map_of (AList.updates ks vs df) ''Statement'' = map_of df ''Statement''"
  by (simp add: updates_conv')

text \<open>
  Lines 110 to 112 change \<^verbatim>\<open>df\<close> in place. Running them again on the table
  they left returns that table once more, when no category is named
  \<^verbatim>\<open>Statement\<close> and the column names of the input are distinct.
\<close>

lemma classify_again:
  assumes "str_keywords dicts" and "map_of df ''Statement'' = Some col"
    and "''Statement'' \<notin> set (map fst dicts)" and "distinct (map fst df)"
  shows "\<exists>out. run_classification dicts df = Inr out \<and> run_classification dicts out = Inr out"
proof -
  let ?ks = "''Tags'' # map fst dicts"
  let ?vs = "tag_column dicts col # map (flag_column dicts col) (map fst dicts)"
  let ?out = "AList.updates ?ks ?vs df"
  have 1: "run_classification dicts df = Inr ?out"
    by (rule run_classification_eq [OF assms(1-3)])
  from assms(3) have "''Statement'' \<notin> set ?ks" by simp
  then have "map_of ?out ''Statement'' = map_of df ''Statement''" by (rule updates_statement)
  with assms(2) have "map_of ?out ''Statement'' = Some col" by simp
  from run_classification_eq [OF assms(1) this assms(3)]
  have "run_classification dicts ?out = Inr (AList.updates ?ks ?vs ?out)" .
  moreover have "AList.updates ?ks ?vs ?out = ?out"
    by (rule updates_twice [OF assms(4)]) simp
  ultimately have "run_classification dicts ?out = Inr ?out" by simp
  with 1 show ?thesis by blast
qed

lemma default_categories:
  "''Statement'' \<notin> set (map fst DEFAULT_DICTIONARIES)" "''Tags'' \<notin> set (map fst DEFAULT_DICTIONARIES)"
  by (simp_all add: DEFAULT_DICTIONARIES_def)

lemma run_classification_tags:
  assumes "str_keywords dicts" and "map_of df ''Statement'' = Some col"
    and "''Statement'' \<notin> set (map fst dicts)" and "''Tags'' \<notin> set (map fst dicts)"
  shows "\<exists>out. run_classification dicts df = Inr out \<and>
           map_of out ''Tags'' = Some (tag_column dicts col)"
proof -
  let ?cats = "map fst dicts"
  let ?out = "AList.updates (''Tags'' # ?cats)
                (tag_column dicts col # map (flag_column dicts col) ?cats) df"
  have r: "run_classification dicts df = Inr ?out"
    by (rule run_classification_eq [OF assms(1-3)])
  have m: "map_of ?out = (map_of df)(''Tags'' \<mapsto> tag_column dicts col,
             ?cats [\<mapsto>] map (flag_column dicts col) ?cats)"
    by (simp only: updates_conv' map_upds_Cons)
  have "map_of ?out ''Tags'' = Some (tag_column dicts col)"
    unfolding m using assms(4) by simp
  with r show ?thesis by blast
qed

section \<open>The specification's claims\<close>

subsection \<open>Matching\<close>

text \<open>
  C1 (as the code has it). \<^verbatim>\<open>get_tags\<close> lowercases the text and leaves the keywords
  as they are stored. Whenever it returns, and it does whenever all keywords are
  strings, a category is in the result if and only if one of its keywords, as
  stored, occurs as a contiguous block in the lowercased string form of the input.
\<close>

theorem get_tags_matches_stored_keywords:
  "(str_keywords dicts \<longrightarrow> (\<exists>ms. get_tags dicts x = Inr ms)) \<and>
   (\<forall>ms. get_tags dicts x = Inr ms \<longrightarrow>
      (\<forall>c. c \<in> set ms \<longleftrightarrow>
         (\<exists>words w. (c, words) \<in> set dicts \<and> JStr w \<in> set words \<and>
            (\<exists>p q. py_lower (py_str x) = p @ w @ q))))"
proof (intro conjI impI allI)
  assume "str_keywords dicts"
  then show "\<exists>ms. get_tags dicts x = Inr ms" by (simp add: get_tags_str)
next
  fix ms c
  assume "get_tags dicts x = Inr ms"
  then have "ms = matched dicts x" by (rule get_tags_Inr)
  then show "c \<in> set ms \<longleftrightarrow>
         (\<exists>words w. (c, words) \<in> set dicts \<and> JStr w \<in> set words \<and>
            (\<exists>p q. py_lower (py_str x) = p @ w @ q))"
    by (simp add: set_matched str_contains_iff)
qed

text \<open>
  The built-in dictionaries on \<^verbatim>\<open>"LIMITED TIME offer"\<close>: the urgency category is
  returned and has a keyword in the lowercased text, the other has none.
\<close>

theorem get_tags_matches_stored_keywords_witness:
  "str_keywords DEFAULT_DICTIONARIES \<and>
   get_tags DEFAULT_DICTIONARIES (Str ''LIMITED TIME offer'') = Inr [''urgency_marketing''] \<and>
   (\<exists>words w. (''urgency_marketing'', words) \<in> set DEFAULT_DICTIONARIES \<and> JStr w \<in> set words \<and>
      (\<exists>p q. py_lower (py_str (Str ''LIMITED TIME offer'')) = p @ w @ q)) \<and>
   \<not> (\<exists>words w. (''exclusive_marketing'', words) \<in> set DEFAULT_DICTIONARIES \<and> JStr w \<in> set words \<and>
      (\<exists>p q. py_lower (py_str (Str ''LIMITED TIME offer'')) = p @ w @ q))"
proof -
  have k: "str_keywords DEFAULT_DICTIONARIES" by code_simp
  have g: "get_tags DEFAULT_DICTIONARIES (Str ''LIMITED TIME offer'') = Inr [''urgency_marketing'']"
    by code_simp
  from get_tags_matches_stored_keywords [of DEFAULT_DICTIONARIES "Str ''LIMITED TIME offer''"] g
  have m: "\<forall>c. c \<in> set [''urgency_marketing''] \<longleftrightarrow>
         (\<exists>words w. (c, words) \<in> set DEFAULT_DICTIONARIES \<and> JStr w \<in> set words \<and>
            (\<exists>p q. py_lower (py_str (Str ''LIMITED TIME offer'')) = p @ w @ q))"
    by blast
  have u: "''urgency_marketing'' \<in> set [''urgency_marketing'']" by simp
  have e: "''exclusive_marketing'' \<notin> set [''urgency_marketing'']" by simp
  from m u e k g show ?thesis by blast
qed

text \<open>
  C1 as the specification states it fails: the keyword \<^verbatim>\<open>VIP\<close>, lowercased, occurs
  in the lowercased text \<^verbatim>\<open>vip pass\<close>, and its category is not returned.
\<close>

theorem uppercase_keyword_counterexample:
  "get_tags [(''offers'', [JStr ''VIP''])] (Str ''vip pass'') = Inr [] \<and>
   str_contains (py_lower (py_str (Str ''vip pass''))) (py_lower ''VIP'')"
  by code_simp

text \<open>
  C7. Every category that \<^verbatim>\<open>get_tags\<close> returns is a category of the dictionaries
  whose keyword set is not empty and has a keyword that is, case-insensitively, a
  substring of the text.
\<close>

theorem get_tags_sound:
  assumes "get_tags dicts x = Inr ms" and "c \<in> set ms"
  shows "\<exists>words. (c, words) \<in> set dicts \<and> words \<noteq> [] \<and>
           (\<exists>w. JStr w \<in> set words \<and> str_contains (py_lower (py_str x)) (py_lower w))"
proof -
  from assms have "c \<in> set (matched dicts x)" using get_tags_Inr by blast
  then obtain words w where w: "(c, words) \<in> set dicts" "JStr w \<in> set words"
      "str_contains (py_lower (py_str x)) w"
    by (auto simp: set_matched)
  from w(3) have "py_lower w = w" by (rule contains_lower_fixed)
  with w show ?thesis by force
qed

theorem get_tags_sound_witness:
  "get_tags DEFAULT_DICTIONARIES (Str ''Members Only sale'') = Inr [''exclusive_marketing''] \<and>
   ''exclusive_marketing'' \<in> set [''exclusive_marketing''] \<and>
   (\<exists>words. (''exclusive_marketing'', words) \<in> set DEFAULT_DICTIONARIES \<and> words \<noteq> [] \<and>
      (\<exists>w. JStr w \<in> set words \<and>
         str_contains (py_lower (py_str (Str ''Members Only sale''))) (py_lower w)))"
proof -
  have g: "get_tags DEFAULT_DICTIONARIES (Str ''Members Only sale'') = Inr [''exclusive_marketing'']"
    by code_simp
  have c: "''exclusive_marketing'' \<in> set [''exclusive_marketing'']" by simp
  from get_tags_sound [OF g c] g c show ?thesis by blast
qed

text \<open>
  C2 (as the code has it). A missing value is not read as the empty string: the
  text is \<^verbatim>\<open>str\<close> of the value, lowercased, which is \<^verbatim>\<open>nan\<close> for the float
  \<^verbatim>\<open>nan\<close> and \<^verbatim>\<open>none\<close> for \<^verbatim>\<open>None\<close>. With string keywords \<^verbatim>\<open>get_tags\<close>
  returns the categories that have a keyword occurring in that text, so the result
  for \<^verbatim>\<open>nan\<close> is empty when no keyword occurs in \<^verbatim>\<open>nan\<close>.
\<close>

theorem get_tags_missing_value:
  assumes "str_keywords dicts"
  shows "get_tags dicts NaN =
           Inr (map fst (filter (\<lambda>entry. \<exists>w. JStr w \<in> set (snd entry) \<and> str_contains ''nan'' w) dicts)) \<and>
         get_tags dicts PyNone =
           Inr (map fst (filter (\<lambda>entry. \<exists>w. JStr w \<in> set (snd entry) \<and> str_contains ''none'' w) dicts)) \<and>
         ((\<forall>entry \<in> set dicts. \<forall>w. JStr w \<in> set (snd entry) \<longrightarrow> \<not> str_contains ''nan'' w) \<longrightarrow>
            get_tags dicts NaN = Inr [])"
  using assms by (simp add: get_tags_str matched_missing hits_iff filter_empty_conv)

text \<open>
  No keyword of the built-in dictionaries occurs in \<^verbatim>\<open>nan\<close>, so a missing cell
  gets no tag under them.
\<close>

theorem get_tags_missing_value_witness:
  "str_keywords DEFAULT_DICTIONARIES \<and>
   list_all (\<lambda>entry. list_all (\<lambda>word. case word of JStr w \<Rightarrow> \<not> str_contains ''nan'' w | _ \<Rightarrow> True)
      (snd entry)) DEFAULT_DICTIONARIES \<and>
   get_tags DEFAULT_DICTIONARIES NaN = Inr []"
proof -
  have k: "str_keywords DEFAULT_DICTIONARIES" by code_simp
  have l: "list_all (\<lambda>entry. list_all (\<lambda>word. case word of JStr w \<Rightarrow> \<not> str_contains ''nan'' w | _ \<Rightarrow> True)
      (snd entry)) DEFAULT_DICTIONARIES"
    by code_simp
  then have n: "\<forall>entry \<in> set DEFAULT_DICTIONARIES. \<forall>w. JStr w \<in> set (snd entry) \<longrightarrow> \<not> str_contains ''nan'' w"
    by (force simp: list_all_iff)
  from get_tags_missing_value [OF k] n k l show ?thesis by blast
qed

text \<open>
  C2 as the specification states it fails: the only keyword is the non-empty string
  \<^verbatim>\<open>an\<close>, and the missing value is tagged with its category.
\<close>

theorem missing_value_counterexample:
  "''an'' \<noteq> '''' \<and> get_tags [(''article'', [JStr ''an''])] NaN = Inr [''article'']"
  by code_simp

text \<open>
  C9. Under the built-in dictionaries, take any table with a \<^verbatim>\<open>Statement\<close>
  column and any record of it whose text, lowercased, contains both \<^verbatim>\<open>hurry\<close>
  and \<^verbatim>\<open>vip\<close>. Then \<^verbatim>\<open>get_tags\<close> returns both categories for the text, the
  urgency category first, and the run returns a table whose \<^verbatim>\<open>Tags\<close> column
  has, at that record, the cell \<^verbatim>\<open>urgency_marketing, exclusive_marketing\<close>.
\<close>

theorem default_hurry_vip:
  assumes "map_of df ''Statement'' = Some col" and "i < length col"
    and "str_contains (py_lower (py_str (col ! i))) ''hurry''"
    and "str_contains (py_lower (py_str (col ! i))) ''vip''"
  shows "get_tags DEFAULT_DICTIONARIES (col ! i) =
           Inr [''urgency_marketing'', ''exclusive_marketing''] \<and>
         tags_of DEFAULT_DICTIONARIES (col ! i) =
           Inr (Str ''urgency_marketing, exclusive_marketing'') \<and>
         (\<exists>out tags. run_classification DEFAULT_DICTIONARIES df = Inr out \<and>
            map_of out ''Tags'' = Some tags \<and> length tags = length col \<and>
            tags ! i = Str ''urgency_marketing, exclusive_marketing'')"
proof -
  let ?x = "col ! i"
  have u: "hits (snd (DEFAULT_DICTIONARIES ! 0)) (py_lower (py_str ?x))"
    by (rule hitsI [OF _ assms(3)]) (simp add: DEFAULT_DICTIONARIES_def)
  have e: "hits (snd (DEFAULT_DICTIONARIES ! 1)) (py_lower (py_str ?x))"
    by (rule hitsI [OF _ assms(4)]) (simp add: DEFAULT_DICTIONARIES_def)
  have m: "matched DEFAULT_DICTIONARIES ?x = [''urgency_marketing'', ''exclusive_marketing'']"
    using u e by (simp add: matched_def DEFAULT_DICTIONARIES_def)
  then have g: "get_tags DEFAULT_DICTIONARIES ?x = Inr [''urgency_marketing'', ''exclusive_marketing'']"
    by (simp add: get_tags_str str_keywords_DEFAULT)
  then have t: "tags_of DEFAULT_DICTIONARIES ?x = Inr (Str ''urgency_marketing, exclusive_marketing'')"
    by (simp add: tags_of_def)
  from run_classification_tags [OF str_keywords_DEFAULT assms(1) default_categories]
  obtain out where o: "run_classification DEFAULT_DICTIONARIES df = Inr out"
      "map_of out ''Tags'' = Some (tag_column DEFAULT_DICTIONARIES col)"
    by blast
  have l: "length (tag_column DEFAULT_DICTIONARIES col) = length col"
    by (simp add: tag_column_def)
  have "tag_column DEFAULT_DICTIONARIES col ! i = Str (join '', '' (matched DEFAULT_DICTIONARIES ?x))"
    using assms(2) by (simp add: tag_column_def)
  also have "\<dots> = Str ''urgency_marketing, exclusive_marketing''"
    unfolding m by simp
  finally have "tag_column DEFAULT_DICTIONARIES col ! i = Str ''urgency_marketing, exclusive_marketing''" .
  with o l have "\<exists>out tags. run_classification DEFAULT_DICTIONARIES df = Inr out \<and>
            map_of out ''Tags'' = Some tags \<and> length tags = length col \<and>
            tags ! i = Str ''urgency_marketing, exclusive_marketing''"
    by blast
  with g t show ?thesis by blast
qed

theorem default_hurry_vip_witness:
  "map_of [(''id'', [Other ''1'', Other ''2'']),
           (''Statement'', [Str ''nothing here'', Str ''VIP sale - HURRY!''])] ''Statement'' =
     Some [Str ''nothing here'', Str ''VIP sale - HURRY!''] \<and>
   (1::nat) < length [Str ''nothing here'', Str ''VIP sale - HURRY!''] \<and>
   str_contains (py_lower (py_str ([Str ''nothing here'', Str ''VIP sale - HURRY!''] ! 1))) ''hurry'' \<and>
   str_contains (py_lower (py_str ([Str ''nothing here'', Str ''VIP sale - HURRY!''] ! 1))) ''vip'' \<and>
   get_tags DEFAULT_DICTIONARIES ([Str ''nothing here'', Str ''VIP sale - HURRY!''] ! 1) =
     Inr [''urgency_marketing'', ''exclusive_marketing''] \<and>
   (\<exists>out tags. run_classification DEFAULT_DICTIONARIES
        [(''id'', [Other ''1'', Other ''2'']),
         (''Statement'', [Str ''nothing here'', Str ''VIP sale - HURRY!''])] = Inr out \<and>
      map_of out ''Tags'' = Some tags \<and>
      length tags = length [Str ''nothing here'', Str ''VIP sale - HURRY!''] \<and>
      tags ! 1 = Str ''urgency_marketing, exclusive_marketing'')"
proof -
  let ?col = "[Str ''nothing here'', Str ''VIP sale - HURRY!'']"
  let ?df = "[(''id'', [Other ''1'', Other ''2'']), (''Statement'', ?col)]"
  have s: "map_of ?df ''Statement'' = Some ?col" by simp
  have i: "(1::nat) < length ?col" by simp
  have h: "str_contains (py_lower (py_str (?col ! 1))) ''hurry''" by code_simp
  have v: "str_contains (py_lower (py_str (?col ! 1))) ''vip''" by code_simp
  from default_hurry_vip [OF s i h v] s i h v show ?thesis by blast
qed

subsection \<open>The missing text column\<close>

text \<open>
  C6. A table without a column named \<^verbatim>\<open>Statement\<close> stops the handler with the
  message about the missing column. No dataset comes out, and no cell is classified:
  the result is the same for dictionaries on which \<^verbatim>\<open>get_tags\<close> would raise.
\<close>

theorem missing_statement_column:
  assumes "''Statement'' \<notin> set (map fst df)"
  shows "run_classification dicts df = Inl MissingStatementColumn"
  using assms by (simp add: run_classification_def)

text \<open>
  The name is matched exactly. With the numeric keyword below, classifying the
  cell would raise; under the column name \<^verbatim>\<open>statement\<close> the run stops before.
\<close>

theorem missing_statement_column_witness:
  "''Statement'' \<notin> set (map fst [(''statement'', [Str ''Hurry, VIP only''])]) \<and>
   run_classification [(''numbers'', [JNum 1])] [(''statement'', [Str ''Hurry, VIP only''])] =
     Inl MissingStatementColumn \<and>
   run_classification [(''numbers'', [JNum 1])] [(''Statement'', [Str ''Hurry, VIP only''])] =
     Inl (Uncaught TypeError)"
proof -
  have a: "''Statement'' \<notin> set (map fst [(''statement'', [Str ''Hurry, VIP only''])])" by simp
  have b: "run_classification [(''numbers'', [JNum 1])] [(''Statement'', [Str ''Hurry, VIP only''])] =
     Inl (Uncaught TypeError)" by code_simp
  from missing_statement_column [OF a] a b show ?thesis by blast
qed

subsection \<open>Saving the dictionaries\<close>

text \<open>
  C3. When the text does not parse, or parses to a value that is not an object, or
  to an object one of whose values cannot be iterated, the handler reports the
  failure and the session state after it is the state before it: no category of
  the input is stored, also not those that precede the bad one.
\<close>

theorem save_changes_malformed:
  assumes "(\<exists>e. loads (dict_text st) = Inl e) \<or>
           (\<exists>j. loads (dict_text st) = Inr j \<and> (\<forall>kvs. j \<noteq> JObj kvs)) \<or>
           (\<exists>kvs k v. loads (dict_text st) = Inr (JObj kvs) \<and> (k, v) \<in> set kvs \<and> \<not> iterable v)"
  shows "\<exists>e. save_changes loads st = (st, FailedToParseJSON e)"
proof -
  have "\<exists>e. parse_and_clean loads (dict_text st) = Inl e"
    using assms
  proof (elim disjE exE conjE)
    fix e assume "loads (dict_text st) = Inl e"
    then show ?thesis by (simp add: parse_and_clean_def)
  next
    fix j assume j: "loads (dict_text st) = Inr j" "\<forall>kvs. j \<noteq> JObj kvs"
    then have "py_items j = Inl AttributeError" by (cases j) simp_all
    with j show ?thesis by (simp add: parse_and_clean_def)
  next
    fix kvs k v
    assume l: "loads (dict_text st) = Inr (JObj kvs)" and m: "(k, v) \<in> set kvs" and n: "\<not> iterable v"
    from cleaned_from_fails [OF m py_set_not_iterable [OF n]]
    obtain e' where "cleaned_from kvs [] = Inl e'" by blast
    with l show ?thesis by (simp add: parse_and_clean_def)
  qed
  then show ?thesis by (auto simp: save_changes_def)
qed

text \<open>
  An object whose first value is well formed and whose second is a number: the
  built-in dictionaries stay, the first category is not stored.
\<close>

theorem save_changes_malformed_witness:
  "(\<lambda>t. Inr (JObj [(''kept'', JArr [JStr ''sale'']), (''broken'', JNum 3)]))
      (dict_text \<lparr>dictionaries = DEFAULT_DICTIONARIES, dict_text = ''edited''\<rparr>) =
     Inr (JObj [(''kept'', JArr [JStr ''sale'']), (''broken'', JNum 3)]) \<and>
   (''broken'', JNum 3) \<in> set [(''kept'', JArr [JStr ''sale'']), (''broken'', JNum 3)] \<and>
   \<not> iterable (JNum 3) \<and>
   (\<exists>e. save_changes (\<lambda>t. Inr (JObj [(''kept'', JArr [JStr ''sale'']), (''broken'', JNum 3)]))
      \<lparr>dictionaries = DEFAULT_DICTIONARIES, dict_text = ''edited''\<rparr> =
     (\<lparr>dictionaries = DEFAULT_DICTIONARIES, dict_text = ''edited''\<rparr>, FailedToParseJSON e))"
proof -
  let ?loads = "\<lambda>t::string. (Inr (JObj [(''kept'', JArr [JStr ''sale'']), (''broken'', JNum 3)]) :: exn + json)"
  let ?st = "\<lparr>dictionaries = DEFAULT_DICTIONARIES, dict_text = ''edited''\<rparr>"
  have a: "?loads (dict_text ?st) = Inr (JObj [(''kept'', JArr [JStr ''sale'']), (''broken'', JNum 3)])"
    by simp
  have b: "(''broken'', JNum 3) \<in> set [(''kept'', JArr [JStr ''sale'']), (''broken'', JNum 3)]" by simp
  have c: "\<not> iterable (JNum 3)" by simp
  from a b c have
    "(\<exists>e. ?loads (dict_text ?st) = Inl e) \<or>
     (\<exists>j. ?loads (dict_text ?st) = Inr j \<and> (\<forall>kvs. j \<noteq> JObj kvs)) \<or>
     (\<exists>kvs k v. ?loads (dict_text ?st) = Inr (JObj kvs) \<and> (k, v) \<in> set kvs \<and> \<not> iterable v)"
    by blast
  from save_changes_malformed [OF this] a b c show ?thesis by blast
qed

text \<open>
  C10. A category whose keyword set holds the empty string is in every result of
  \<^verbatim>\<open>get_tags\<close>, for every text, the empty one included; and \<^verbatim>\<open>get_tags\<close> returns
  whenever all keywords are strings. The handler does not reject the empty keyword
  either: an object of lists of strings is stored, the empty string stays in the
  set of its category, and from then on the category matches every text.
\<close>

theorem empty_keyword_always_matches:
  "((c, words) \<in> set dicts \<and> JStr '''' \<in> set words \<longrightarrow>
      (str_keywords dicts \<longrightarrow> (\<exists>ms. get_tags dicts x = Inr ms)) \<and>
      (\<forall>ms. get_tags dicts x = Inr ms \<longrightarrow> c \<in> set ms)) \<and>
   (loads (dict_text st) = Inr (JObj kvs) \<and> distinct (map fst kvs) \<and>
    list_all (\<lambda>kv. is_str_list (snd kv)) kvs \<and> (c, JArr ws) \<in> set kvs \<and> JStr '''' \<in> set ws \<longrightarrow>
      (\<exists>st'. save_changes loads st = (st', DictionariesUpdated) \<and>
         (\<exists>words'. (c, words') \<in> set (dictionaries st') \<and> JStr '''' \<in> set words') \<and>
         (\<forall>y. \<exists>ms. get_tags (dictionaries st') y = Inr ms \<and> c \<in> set ms)))"
proof (intro conjI impI; (elim conjE)?)
  assume "(c, words) \<in> set dicts" "JStr '''' \<in> set words" "str_keywords dicts"
  then show "\<exists>ms. get_tags dicts x = Inr ms" by (simp add: get_tags_str)
next
  assume a: "(c, words) \<in> set dicts" "JStr '''' \<in> set words"
  show "\<forall>ms. get_tags dicts x = Inr ms \<longrightarrow> c \<in> set ms"
    using empty_keyword_matched [OF a] get_tags_Inr by blast
next
  assume l: "loads (dict_text st) = Inr (JObj kvs)" and dist: "distinct (map fst kvs)"
    and lists: "list_all (\<lambda>kv. is_str_list (snd kv)) kvs"
    and c: "(c, JArr ws) \<in> set kvs" and e: "JStr '''' \<in> set ws"
  have "str_keywords []" by (simp add: str_keywords_def)
  from cleaned_from_str_lists [OF lists dist this] obtain d where
    d: "cleaned_from kvs [] = Inr d" "str_keywords d"
       "\<forall>k ws. (k, JArr ws) \<in> set kvs \<longrightarrow> map_of d k = Some (foldl set_add [] ws)"
    by blast
  from d(3) c have "map_of d c = Some (foldl set_add [] ws)" by blast
  then have m: "(c, foldl set_add [] ws) \<in> set d" by (rule map_of_SomeD)
  from e have k: "JStr '''' \<in> set (foldl set_add [] ws)" by (simp add: foldl_set_add_str)
  have s: "save_changes loads st = (st\<lparr>dictionaries := d\<rparr>, DictionariesUpdated)"
    using l d(1) by (simp add: save_changes_def parse_and_clean_def)
  have "\<forall>y. \<exists>ms. get_tags d y = Inr ms \<and> c \<in> set ms"
    using get_tags_str [OF d(2)] empty_keyword_matched [OF m k] by simp
  with s m k show "\<exists>st'. save_changes loads st = (st', DictionariesUpdated) \<and>
         (\<exists>words'. (c, words') \<in> set (dictionaries st') \<and> JStr '''' \<in> set words') \<and>
         (\<forall>y. \<exists>ms. get_tags (dictionaries st') y = Inr ms \<and> c \<in> set ms)"
    by auto
qed

theorem empty_keyword_always_matches_witness:
  "(''all'', [JStr '''']) \<in> set [(''all'', [JStr ''''])] \<and> JStr '''' \<in> set [JStr ''''] \<and>
   str_keywords [(''all'', [JStr ''''])] \<and>
   get_tags [(''all'', [JStr ''''])] (Str '''') = Inr [''all''] \<and>
   distinct (map fst [(''all'', JArr [JStr ''''])]) \<and>
   list_all (\<lambda>kv. is_str_list (snd kv)) [(''all'', JArr [JStr ''''])] \<and>
   (\<exists>st'. save_changes (\<lambda>t. Inr (JObj [(''all'', JArr [JStr ''''])]))
             \<lparr>dictionaries = DEFAULT_DICTIONARIES, dict_text = ''edited''\<rparr> = (st', DictionariesUpdated) \<and>
          (\<exists>words'. (''all'', words') \<in> set (dictionaries st') \<and> JStr '''' \<in> set words') \<and>
          (\<forall>y. \<exists>ms. get_tags (dictionaries st') y = Inr ms \<and> ''all'' \<in> set ms))"
proof -
  let ?kvs = "[(''all'', JArr [JStr ''''])]"
  let ?loads = "\<lambda>t::string. (Inr (JObj ?kvs) :: exn + json)"
  let ?st = "\<lparr>dictionaries = DEFAULT_DICTIONARIES, dict_text = ''edited''\<rparr>"
  have a: "(''all'', [JStr '''']) \<in> set [(''all'', [JStr ''''])]" "JStr '''' \<in> set [JStr '''']"
    by simp_all
  have k: "str_keywords [(''all'', [JStr ''''])]" by code_simp
  have g: "get_tags [(''all'', [JStr ''''])] (Str '''') = Inr [''all'']" by code_simp
  have l: "?loads (dict_text ?st) = Inr (JObj ?kvs)" by simp
  have d: "distinct (map fst ?kvs)" by simp
  have s: "list_all (\<lambda>kv. is_str_list (snd kv)) ?kvs" by simp
  have m: "(''all'', JArr [JStr '''']) \<in> set ?kvs" by simp
  from empty_keyword_always_matches
    [of "''all''" "[JStr '''']" "[(''all'', [JStr ''''])]" "Str ''''" ?loads ?st ?kvs "[JStr '''']"]
    a k g l d s m
  show ?thesis by blast
qed

subsection \<open>Annotating the table\<close>

text \<open>
  C4 (as the code has it). The columns are assigned by name, so the statement needs
  the category names to differ from \<^verbatim>\<open>Statement\<close> and \<^verbatim>\<open>Tags\<close>. Then, with
  string keywords, the run returns a table in which, for every record, the Tags
  cell is the names of the categories that \<^verbatim>\<open>get_tags\<close> returns for the
  record's text, in the order of the dictionaries and joined by a comma and a
  space (the empty string when there is none), and the cell of each category is
  the boolean that tells whether the category is among them.
\<close>

theorem classify_tags_and_flags:
  assumes "str_keywords dicts" and "map_of df ''Statement'' = Some col"
    and "''Statement'' \<notin> set (map fst dicts)" and "''Tags'' \<notin> set (map fst dicts)"
  shows "\<exists>out tags. run_classification dicts df = Inr out \<and>
           map_of out ''Tags'' = Some tags \<and> length tags = length col \<and>
           (\<forall>i < length col.
              get_tags dicts (col ! i) = Inr (matched dicts (col ! i)) \<and>
              tags ! i = Str (join '', '' (matched dicts (col ! i))) \<and>
              (matched dicts (col ! i) = [] \<longrightarrow> tags ! i = Str '''') \<and>
              (\<forall>c \<in> set (map fst dicts). \<exists>flags. map_of out c = Some flags \<and>
                 length flags = length col \<and>
                 flags ! i = Bool (c \<in> set (matched dicts (col ! i)))))"
proof -
  let ?cats = "map fst dicts"
  let ?out = "AList.updates (''Tags'' # ?cats)
                (tag_column dicts col # map (flag_column dicts col) ?cats) df"
  have r: "run_classification dicts df = Inr ?out"
    by (rule run_classification_eq [OF assms(1-3)])
  have m: "map_of ?out = (map_of df)(''Tags'' \<mapsto> tag_column dicts col,
             ?cats [\<mapsto>] map (flag_column dicts col) ?cats)"
    by (simp only: updates_conv' map_upds_Cons)
  have t: "map_of ?out ''Tags'' = Some (tag_column dicts col)"
    unfolding m using assms(4) by simp
  have f: "map_of ?out c = Some (flag_column dicts col c)" if "c \<in> set ?cats" for c
    unfolding m using that by (rule upds_in)
  have l: "length (tag_column dicts col) = length col" by (simp add: tag_column_def)
  have "get_tags dicts (col ! i) = Inr (matched dicts (col ! i)) \<and>
        tag_column dicts col ! i = Str (join '', '' (matched dicts (col ! i))) \<and>
        (matched dicts (col ! i) = [] \<longrightarrow> tag_column dicts col ! i = Str '''') \<and>
        (\<forall>c \<in> set ?cats. \<exists>flags. map_of ?out c = Some flags \<and>
           length flags = length col \<and>
           flags ! i = Bool (c \<in> set (matched dicts (col ! i))))"
    if i: "i < length col" for i
  proof (intro conjI impI ballI)
    show "get_tags dicts (col ! i) = Inr (matched dicts (col ! i))"
      by (rule get_tags_str [OF assms(1)])
    show g: "tag_column dicts col ! i = Str (join '', '' (matched dicts (col ! i)))"
      using i by (simp add: tag_column_def)
    show "tag_column dicts col ! i = Str ''''" if "matched dicts (col ! i) = []"
      using g that by simp
    fix c assume "c \<in> set ?cats"
    then have "map_of ?out c = Some (flag_column dicts col c)" by (rule f)
    moreover have "length (flag_column dicts col c) = length col"
      by (simp add: flag_column_def)
    moreover have "flag_column dicts col c ! i = Bool (c \<in> set (matched dicts (col ! i)))"
      using i by (simp add: flag_column_def)
    ultimately show "\<exists>flags. map_of ?out c = Some flags \<and> length flags = length col \<and>
           flags ! i = Bool (c \<in> set (matched dicts (col ! i)))"
      by blast
  qed
  with r t l show ?thesis by blast
qed

text \<open>
  Two records under the built-in dictionaries: the first is tagged with the urgency
  category, the second with none.
\<close>

theorem classify_tags_and_flags_witness:
  "str_keywords DEFAULT_DICTIONARIES \<and>
   map_of [(''id'', [Other ''1'', Other ''2'']),
           (''Statement'', [Str ''Order now!'', Str ''The weather is nice today''])] ''Statement'' =
     Some [Str ''Order now!'', Str ''The weather is nice today''] \<and>
   ''Statement'' \<notin> set (map fst DEFAULT_DICTIONARIES) \<and>
   ''Tags'' \<notin> set (map fst DEFAULT_DICTIONARIES) \<and>
   run_classification DEFAULT_DICTIONARIES
     [(''id'', [Other ''1'', Other ''2'']),
      (''Statement'', [Str ''Order now!'', Str ''The weather is nice today''])] =
     Inr [(''id'', [Other ''1'', Other ''2'']),
          (''Statement'', [Str ''Order now!'', Str ''The weather is nice today'']),
          (''Tags'', [Str ''urgency_marketing'', Str '''']),
          (''urgency_marketing'', [Bool True, Bool False]),
          (''exclusive_marketing'', [Bool False, Bool False])] \<and>
   (\<exists>out tags. run_classification DEFAULT_DICTIONARIES
        [(''id'', [Other ''1'', Other ''2'']),
         (''Statement'', [Str ''Order now!'', Str ''The weather is nice today''])] = Inr out \<and>
      map_of out ''Tags'' = Some tags \<and> length tags = 2 \<and>
      tags ! 1 = Str (join '', '' (matched DEFAULT_DICTIONARIES (Str ''The weather is nice today''))))"
proof -
  let ?col = "[Str ''Order now!'', Str ''The weather is nice today'']"
  let ?df = "[(''id'', [Other ''1'', Other ''2'']), (''Statement'', ?col)]"
  have k: "str_keywords DEFAULT_DICTIONARIES" by code_simp
  have s: "map_of ?df ''Statement'' = Some ?col" by simp
  have n: "''Statement'' \<notin> set (map fst DEFAULT_DICTIONARIES)" by code_simp
  have t: "''Tags'' \<notin> set (map fst DEFAULT_DICTIONARIES)" by code_simp
  have r: "run_classification DEFAULT_DICTIONARIES ?df =
     Inr [(''id'', [Other ''1'', Other ''2'']),
          (''Statement'', [Str ''Order now!'', Str ''The weather is nice today'']),
          (''Tags'', [Str ''urgency_marketing'', Str '''']),
          (''urgency_marketing'', [Bool True, Bool False]),
          (''exclusive_marketing'', [Bool False, Bool False])]"
    by code_simp
  from classify_tags_and_flags [OF k s n t] obtain out tags where
      o: "run_classification DEFAULT_DICTIONARIES ?df = Inr out"
         "map_of out ''Tags'' = Some tags" "length tags = length ?col"
         "\<forall>i < length ?col. tags ! i = Str (join '', '' (matched DEFAULT_DICTIONARIES (?col ! i)))"
    by blast
  from o(4) have "tags ! 1 = Str (join '', '' (matched DEFAULT_DICTIONARIES (?col ! 1)))" by simp
  then have "tags ! 1 = Str (join '', '' (matched DEFAULT_DICTIONARIES (Str ''The weather is nice today'')))"
    by simp
  moreover from o(3) have "length tags = 2" by simp
  ultimately show ?thesis using k s n t r o(1,2) by blast
qed

text \<open>
  C4 as the specification states it fails: with a category named \<^verbatim>\<open>Tags\<close> the
  text is matched, its Tags cell would be the category's name, and the cell that
  the run leaves under \<^verbatim>\<open>Tags\<close> is the category's boolean.
\<close>

theorem tags_category_counterexample:
  "get_tags [(''Tags'', [JStr ''sale''])] (Str ''big sale'') = Inr [''Tags''] \<and>
   run_classification [(''Tags'', [JStr ''sale''])] [(''Statement'', [Str ''big sale''])] =
     Inr [(''Statement'', [Str ''big sale'']), (''Tags'', [Bool True])] \<and>
   Bool True \<noteq> Str (join '', '' [''Tags''])"
  by code_simp

text \<open>
  C5 (as the code has it). When no column of the table is named \<^verbatim>\<open>Tags\<close> or like
  a category, and no category is named \<^verbatim>\<open>Tags\<close>, every table that the run returns
  begins with the columns of the input, names and cells unchanged, followed by
  \<^verbatim>\<open>Tags\<close> and then one column per category in the order of the dictionaries.
  With string keywords and a \<^verbatim>\<open>Statement\<close> column the run does return a table.
  The category names are distinct, as the keys of a Python dict are.
\<close>

theorem classify_keeps_columns:
  assumes "''Tags'' \<notin> set (map fst df)" and "''Tags'' \<notin> set (map fst dicts)"
    and "set (map fst dicts) \<inter> set (map fst df) = {}" and "distinct (map fst dicts)"
  shows "(str_keywords dicts \<and> ''Statement'' \<in> set (map fst df) \<longrightarrow>
            (\<exists>out. run_classification dicts df = Inr out)) \<and>
         (\<forall>out. run_classification dicts df = Inr out \<longrightarrow>
            take (length df) out = df \<and>
            map fst out = map fst df @ ''Tags'' # map fst dicts)"
proof (intro conjI impI allI; (elim conjE)?)
  assume k: "str_keywords dicts" and s: "''Statement'' \<in> set (map fst df)"
  from s have "\<exists>col. map_of df ''Statement'' = Some col" by (simp only: has_statement)
  then obtain col where c: "map_of df ''Statement'' = Some col" ..
  from s assms(3) have n: "''Statement'' \<notin> set (map fst dicts)" by (meson disjoint_iff)
  have "run_classification dicts df =
           Inr (AList.updates (''Tags'' # map fst dicts)
                  (tag_column dicts col # map (flag_column dicts col) (map fst dicts)) df)"
    using k c n by (rule run_classification_eq)
  then show "\<exists>out. run_classification dicts df = Inr out" ..
next
  fix out
  let ?ks = "''Tags'' # map fst dicts"
  assume "run_classification dicts df = Inr out"
  then have "classify dicts df = Inr out" by (simp only: run_classification_Inr)
  from classify_updates [OF this] obtain vs where
      l: "length vs = Suc (length dicts)" and u: "out = AList.updates ?ks vs df"
    by blast
  have d: "distinct ?ks" using assms(2,4) by simp
  have i: "set ?ks \<inter> fst ` set df = {}" using assms(1,3) by auto
  from l have l': "length vs = length ?ks" by simp
  have "AList.updates ?ks vs df = df @ zip ?ks vs" using d i l' by (rule updates_fresh)
  with u have o: "out = df @ zip ?ks vs" by (rule trans)
  have z: "map fst (zip ?ks vs) = ?ks" by (rule map_fst_zip) (simp add: l)
  have "take (length df) (df @ zip ?ks vs) = df" by simp
  then show "take (length df) out = df" by (simp only: o)
  have "map fst (df @ zip ?ks vs) = map fst df @ ?ks" by (simp only: map_append z)
  then show "map fst out = map fst df @ ''Tags'' # map fst dicts" by (simp only: o)
qed

theorem classify_keeps_columns_witness:
  "''Tags'' \<notin> set (map fst [(''id'', [Other ''7'']), (''Statement'', [Str ''VIP early access''])]) \<and>
   ''Tags'' \<notin> set (map fst DEFAULT_DICTIONARIES) \<and>
   set (map fst DEFAULT_DICTIONARIES) \<inter>
     set (map fst [(''id'', [Other ''7'']), (''Statement'', [Str ''VIP early access''])]) = {} \<and>
   distinct (map fst DEFAULT_DICTIONARIES) \<and>
   str_keywords DEFAULT_DICTIONARIES \<and>
   ''Statement'' \<in> set (map fst [(''id'', [Other ''7'']), (''Statement'', [Str ''VIP early access''])]) \<and>
   run_classification DEFAULT_DICTIONARIES
       [(''id'', [Other ''7'']), (''Statement'', [Str ''VIP early access''])] =
     Inr [(''id'', [Other ''7'']), (''Statement'', [Str ''VIP early access'']),
          (''Tags'', [Str ''exclusive_marketing'']),
          (''urgency_marketing'', [Bool False]), (''exclusive_marketing'', [Bool True])] \<and>
   take (length [(''id'', [Other ''7'']), (''Statement'', [Str ''VIP early access''])])
     [(''id'', [Other ''7'']), (''Statement'', [Str ''VIP early access'']),
      (''Tags'', [Str ''exclusive_marketing'']),
      (''urgency_marketing'', [Bool False]), (''exclusive_marketing'', [Bool True])] =
     [(''id'', [Other ''7'']), (''Statement'', [Str ''VIP early access''])] \<and>
   map fst [(''id'', [Other ''7'']), (''Statement'', [Str ''VIP early access'']),
      (''Tags'', [Str ''exclusive_marketing'']),
      (''urgency_marketing'', [Bool False]), (''exclusive_marketing'', [Bool True])] =
     map fst [(''id'', [Other ''7'']), (''Statement'', [Str ''VIP early access''])] @
       ''Tags'' # map fst DEFAULT_DICTIONARIES"
proof -
  let ?df = "[(''id'', [Other ''7'']), (''Statement'', [Str ''VIP early access''])]"
  let ?out = "[(''id'', [Other ''7'']), (''Statement'', [Str ''VIP early access'']),
          (''Tags'', [Str ''exclusive_marketing'']),
          (''urgency_marketing'', [Bool False]), (''exclusive_marketing'', [Bool True])]"
  have a: "''Tags'' \<notin> set (map fst ?df)" by simp
  have b: "''Tags'' \<notin> set (map fst DEFAULT_DICTIONARIES)" by (rule default_categories)
  have c: "set (map fst DEFAULT_DICTIONARIES) \<inter> set (map fst ?df) = {}"
    by (simp add: DEFAULT_DICTIONARIES_def)
  have d: "distinct (map fst DEFAULT_DICTIONARIES)" by (simp add: DEFAULT_DICTIONARIES_def)
  have k: "str_keywords DEFAULT_DICTIONARIES" by (rule str_keywords_DEFAULT)
  have s: "''Statement'' \<in> set (map fst ?df)" by simp
  have r: "run_classification DEFAULT_DICTIONARIES ?df = Inr ?out" by code_simp
  from classify_keeps_columns [OF a b c d] r
  have t: "take (length ?df) ?out = ?df \<and>
           map fst ?out = map fst ?df @ ''Tags'' # map fst DEFAULT_DICTIONARIES"
    by blast
  from a b c d k s r t show ?thesis by (intro conjI) (elim conjE, assumption)+
qed

text \<open>
  C5 as the specification states it fails: the table already has a column named
  \<^verbatim>\<open>Tags\<close>, and the run replaces its cell.
\<close>

theorem existing_tags_column_counterexample:
  "map_of [(''Statement'', [Str ''hello'']), (''Tags'', [Str ''reviewed''])] ''Tags'' =
     Some [Str ''reviewed''] \<and>
   run_classification [(''promo'', [JStr ''sale''])]
       [(''Statement'', [Str ''hello'']), (''Tags'', [Str ''reviewed''])] =
     Inr [(''Statement'', [Str ''hello'']), (''Tags'', [Str '''']), (''promo'', [Bool False])] \<and>
   Str '''' \<noteq> Str ''reviewed''"
  by code_simp

text \<open>
  C8. A run reads the table and the dictionaries and nothing else, so a second run
  on the same table under the same dictionaries ends as the first did. More is
  true: the columns that a run writes, \<^verbatim>\<open>Tags\<close> and one per category, are fixed
  by the \<^verbatim>\<open>Statement\<close> column and the dictionaries. Two runs on tables with the
  same \<^verbatim>\<open>Statement\<close> column stop in the same way, or both return tables, with
  the same cells in these columns.
\<close>

theorem classify_same_columns:
  assumes "map_of df' ''Statement'' = map_of df ''Statement''"
  shows "case run_classification dicts df of
           Inl h \<Rightarrow> run_classification dicts df' = Inl h
         | Inr out \<Rightarrow> \<exists>out'. run_classification dicts df' = Inr out' \<and>
             (\<forall>c \<in> set (''Tags'' # map fst dicts). map_of out' c = map_of out c)"
proof -
  from assms have "''Statement'' \<in> set (map fst df') \<longleftrightarrow> ''Statement'' \<in> set (map fst df)"
    by (simp only: has_statement)
  with classify_agree [OF assms, of dicts] show ?thesis
    by (auto simp: run_classification_def split: sum.splits)
qed

theorem classify_same_columns_witness:
  "map_of [(''Statement'', [Str ''Act now, members only'']), (''Tags'', [Str ''old''])] ''Statement'' =
     map_of [(''id'', [Other ''1'']), (''Statement'', [Str ''Act now, members only''])] ''Statement'' \<and>
   run_classification DEFAULT_DICTIONARIES
       [(''id'', [Other ''1'']), (''Statement'', [Str ''Act now, members only''])] =
     Inr [(''id'', [Other ''1'']), (''Statement'', [Str ''Act now, members only'']),
          (''Tags'', [Str ''urgency_marketing, exclusive_marketing'']),
          (''urgency_marketing'', [Bool True]), (''exclusive_marketing'', [Bool True])] \<and>
   (\<exists>out'. run_classification DEFAULT_DICTIONARIES
       [(''Statement'', [Str ''Act now, members only'']), (''Tags'', [Str ''old''])] = Inr out' \<and>
      map_of out' ''Tags'' = Some [Str ''urgency_marketing, exclusive_marketing''] \<and>
      map_of out' ''urgency_marketing'' = Some [Bool True] \<and>
      map_of out' ''exclusive_marketing'' = Some [Bool True])"
proof -
  let ?df = "[(''id'', [Other ''1'']), (''Statement'', [Str ''Act now, members only''])]"
  let ?df' = "[(''Statement'', [Str ''Act now, members only'']), (''Tags'', [Str ''old''])]"
  let ?out = "[(''id'', [Other ''1'']), (''Statement'', [Str ''Act now, members only'']),
          (''Tags'', [Str ''urgency_marketing, exclusive_marketing'']),
          (''urgency_marketing'', [Bool True]), (''exclusive_marketing'', [Bool True])]"
  have s: "map_of ?df' ''Statement'' = map_of ?df ''Statement''" by simp
  have r: "run_classification DEFAULT_DICTIONARIES ?df = Inr ?out" by code_simp
  have c: "set (''Tags'' # map fst DEFAULT_DICTIONARIES) =
             {''Tags'', ''urgency_marketing'', ''exclusive_marketing''}"
    by (simp add: DEFAULT_DICTIONARIES_def)
  from classify_same_columns [OF s, of DEFAULT_DICTIONARIES] r
  obtain out' where o: "run_classification DEFAULT_DICTIONARIES ?df' = Inr out'"
      "\<forall>c \<in> set (''Tags'' # map fst DEFAULT_DICTIONARIES). map_of out' c = map_of ?out c"
    by auto
  from o(2) c have "map_of out' ''Tags'' = map_of ?out ''Tags''"
      "map_of out' ''urgency_marketing'' = map_of ?out ''urgency_marketing''"
      "map_of out' ''exclusive_marketing'' = map_of ?out ''exclusive_marketing''"
    by blast+
  then have "map_of out' ''Tags'' = Some [Str ''urgency_marketing, exclusive_marketing'']"
      "map_of out' ''urgency_marketing'' = Some [Bool True]"
      "map_of out' ''exclusive_marketing'' = Some [Bool True]"
    by simp_all
  with s r o(1) show ?thesis by blast
qed

end
